theory Spec2Isabelle
  imports Main "HOL-Library.Sublist"
begin

section \<open>Python strings\<close>

text \<open>
  A Python \<open>str\<close> is a sequence of code points. It is modelled as a HOL \<open>string\<close>, a list
  of characters with code points 0 to 255; \<open>length\<close> is Python's \<open>len\<close>.
  \<open>isspace\<close> lists the code points below 256 that \<open>str.isspace\<close> accepts, which are the
  ones \<open>str.strip()\<close> removes; \<open>isdigit\<close> lists the ones the pattern \<open>\d\<close> accepts.
\<close>

definition isspace :: "char \<Rightarrow> bool" where
  "isspace c \<longleftrightarrow> (of_char c :: nat) \<in> {9, 10, 11, 12, 13, 28, 29, 30, 31, 32, 133, 160}"

definition isdigit :: "char \<Rightarrow> bool" where
  "isdigit c \<longleftrightarrow> 48 \<le> (of_char c :: nat) \<and> (of_char c :: nat) \<le> 57"

text \<open>\<open>s.strip()\<close>: whitespace removed from both ends.\<close>

definition strip :: "string \<Rightarrow> string" where
  "strip s = rev (dropWhile isspace (rev (dropWhile isspace s)))"

text \<open>
  A slice bound of Python: a negative bound counts from the end, and the result is clamped
  to the string.
\<close>

definition slice_bound :: "string \<Rightarrow> int \<Rightarrow> nat" where
  "slice_bound s i =
     (if i < 0 then nat (int (length s) + i) else min (nat i) (length s))"

text \<open>\<open>s[:i]\<close> and \<open>s[i:]\<close>.\<close>

definition slice_to :: "string \<Rightarrow> int \<Rightarrow> string" where
  "slice_to s i = take (slice_bound s i) s"

definition slice_from :: "string \<Rightarrow> int \<Rightarrow> string" where
  "slice_from s i = drop (slice_bound s i) s"

text \<open>
  \<open>s.rfind(c, 0, end)\<close> for a one-character needle: the highest index below the end
  bound that holds \<open>c\<close>, and -1 when there is none.
\<close>

definition rfind :: "string \<Rightarrow> char \<Rightarrow> int \<Rightarrow> int" where
  "rfind s c end =
     (case filter (\<lambda>i. s ! i = c) (rev [0..<slice_bound s end]) of
        [] \<Rightarrow> -1
      | i # _ \<Rightarrow> int i)"

text \<open>\<open>s.strip(chars)\<close>: the characters of \<open>chars\<close> removed from both ends.\<close>

definition strip_chars :: "string \<Rightarrow> string \<Rightarrow> string" where
  "strip_chars chars s =
     rev (dropWhile (\<lambda>c. c \<in> set chars) (rev (dropWhile (\<lambda>c. c \<in> set chars) s)))"

text \<open>\<open>s.startswith(p)\<close>.\<close>

definition startswith :: "string \<Rightarrow> string \<Rightarrow> bool" where
  "startswith s p = prefix p s"

text \<open>
  \<open>s.replace(old, new)\<close>: the occurrences of \<open>old\<close> are replaced from left to right,
  without overlap; an empty \<open>old\<close> matches before every character and at the end.
\<close>

fun replace_from :: "string \<Rightarrow> string \<Rightarrow> string \<Rightarrow> string" where
  "replace_from old new [] = []"
| "replace_from old new (c # cs) =
     (if old \<noteq> [] \<and> prefix old (c # cs)
      then new @ replace_from old new (drop (length old) (c # cs))
      else c # replace_from old new cs)"

definition replace :: "string \<Rightarrow> string \<Rightarrow> string \<Rightarrow> string" where
  "replace old new s =
     (if old = [] then new @ concat (map (\<lambda>c. c # new) s) else replace_from old new s)"

text \<open>\<open>s.split(sep)\<close> for a one-character separator: never an empty list.\<close>

fun split :: "char \<Rightarrow> string \<Rightarrow> string list" where
  "split sep [] = [[]]"
| "split sep (c # cs) =
     (if c = sep then [] # split sep cs
      else (case split sep cs of [] \<Rightarrow> [[c]] | x # xs \<Rightarrow> (c # x) # xs))"

text \<open>\<open>s.split(sep, 1)\<close>: at most one cut, at the first separator.\<close>

definition split_once :: "char \<Rightarrow> string \<Rightarrow> string list" where
  "split_once sep s =
     (if sep \<in> set s
      then [takeWhile (\<lambda>c. c \<noteq> sep) s, tl (dropWhile (\<lambda>c. c \<noteq> sep) s)]
      else [s])"

text \<open>\<open>sep.join(xs)\<close>.\<close>

fun join :: "string \<Rightarrow> string list \<Rightarrow> string" where
  "join sep [] = []"
| "join sep [x] = x"
| "join sep (x # y # ys) = x @ sep @ join sep (y # ys)"

text \<open>\<open>str(n)\<close> for a natural number: its decimal digits.\<close>

fun str_nat :: "nat \<Rightarrow> string" where
  "str_nat n =
     (if n < 10 then [char_of (48 + n)]
      else str_nat (n div 10) @ [char_of (48 + n mod 10)])"

section \<open>The world around the scripts\<close>

text \<open>The exceptions that end a run of the scripts.\<close>

datatype error = IndexError | TypeError | FileNotFoundError | OSError | ValueError

text \<open>
  Both scripts read the credential \<open>GOOGLE_API_KEY\<close> once (\<open>os.getenv\<close> gives \<open>None\<close>
  when it is unset) and call the generative service with one prompt; the call returns the
  response text (\<open>Inr\<close>) or raises an exception, of which only \<open>str(e)\<close> is used (\<open>Inl\<close>).
  Variant A saves the deck under a file name, and the file system decides whether that
  raises: \<open>save_raises\<close> gives the exception for a file name that cannot be written (a
  directory that is not there, a name that is too long), and \<open>None\<close> for one that can.
\<close>

record env =
  api_key :: "string option"
  gemini :: "string \<Rightarrow> string + string"
  save_raises :: "string \<Rightarrow> error option"

text \<open>
  A slide of the deck: the index of the layout it was added with (0 is the title layout,
  1 the title-and-content layout), the text of its title shape and the text of its
  placeholder 1 (the subtitle of a title slide, the body of a content slide). Font sizes
  and paragraph attributes are set on slides that exist already and are left out.
\<close>

record slide =
  layout :: nat
  title_text :: string
  body_text :: string

type_synonym deck = "slide list"

definition add_slide :: "deck \<Rightarrow> nat \<Rightarrow> string \<Rightarrow> string \<Rightarrow> deck" where
  "add_slide prs l t b = prs @ [\<lparr>layout = l, title_text = t, body_text = b\<rparr>]"

text \<open>
  What the scripts show on the page, in order, the files they have saved, and the prompts
  they have sent to the generative service, in order.
\<close>

datatype ui_event =
    StError string
  | StInfo string
  | StSuccess string
  | StWrite string
  | StTextArea string string
  | StSubheader string
  | StDownloadButton string deck string

record world =
  ui :: "ui_event list"
  files :: "string \<rightharpoonup> deck"
  calls :: "string list"

definition st :: "ui_event \<Rightarrow> world \<Rightarrow> world" where
  "st e w = w\<lparr>ui := ui w @ [e]\<rparr>"

text \<open>
  The topics of the form: \<open>[topic.strip() for topic in topics_input.split("\n") if topic.strip()]\<close>.
\<close>

definition parse_topics :: "string \<Rightarrow> string list" where
  "parse_topics topics_input =
     map strip (filter (\<lambda>topic. strip topic \<noteq> []) (split (CHR ''\<newline>'') topics_input))"

section \<open>Variant A: the fixed-length segmenter\<close>

text \<open>
  One iteration of the \<open>while\<close> loop of \<open>split_content\<close>: where the content is cut,
  and then the chunk appended and the content that remains.
\<close>

definition split_index :: "string \<Rightarrow> int \<Rightarrow> int" where
  "split_index content max_length =
     (let split_index = rfind content (CHR '' '') max_length
      in if split_index = -1 then max_length else split_index)"

definition split_step :: "string \<Rightarrow> int \<Rightarrow> string \<times> string" where
  "split_step content max_length =
     (let split_index = split_index content max_length
      in (slice_to content split_index, strip (slice_from content split_index)))"

text \<open>
  The loop itself. It need not end (\<open>max_length = 0\<close> on a string that \<open>strip\<close> leaves
  alone runs forever), so the result is an option and \<open>None\<close> stands for no return.
\<close>

partial_function (option) split_loop :: "string list \<Rightarrow> string \<Rightarrow> int \<Rightarrow> string list option" where
  "split_loop chunks content max_length =
     (if int (length content) > max_length
      then split_loop (chunks @ [fst (split_step content max_length)])
             (snd (split_step content max_length)) max_length
      else Some (chunks @ [content]))"

declare split_loop.simps [code]

definition split_content :: "string \<Rightarrow> int \<Rightarrow> string list option" where
  "split_content content max_length = split_loop [] content max_length"

section \<open>Variant A: the deck assembler\<close>

definition generate_content_A :: "env \<Rightarrow> string \<Rightarrow> world \<Rightarrow> string \<times> world" where
  "generate_content_A e prompt w =
     (if api_key e = None \<or> api_key e = Some []
      then (''Error: Missing API key.'',
            st (StError ''Gemini API key not found. Please set it in the .env file.'') w)
      else (let w = w\<lparr>calls := calls w @ [prompt]\<rparr>
            in case gemini e prompt of
                 Inr text \<Rightarrow> (text, w)
               | Inl msg \<Rightarrow> (''Error generating content.'', st (StError (''Error: '' @ msg)) w)))"

text \<open>
  One round of the loop over the topics: the content is shown, split at 900 characters,
  and one slide is added for the first chunk and one for each chunk after it.
  \<open>content_chunks[0]\<close> raises on an empty list.
\<close>

definition topic_slides ::
  "string \<Rightarrow> string \<Rightarrow> deck \<Rightarrow> world \<Rightarrow> ((error + deck) \<times> world) option" where
  "topic_slides content topic prs w =
     (let w = st (StWrite (''### '' @ topic)) w;
          w = st (StWrite content) w
      in case split_content content 900 of
           None \<Rightarrow> None
         | Some content_chunks \<Rightarrow>
             (case content_chunks of
                [] \<Rightarrow> Some (Inl IndexError, w)
              | first_chunk # more_chunks \<Rightarrow>
                  Some (Inr (foldl (\<lambda>prs chunk. add_slide prs 1 topic chunk)
                               (add_slide prs 1 topic first_chunk) more_chunks), w)))"

fun topics_loop ::
  "string \<Rightarrow> string list \<Rightarrow> deck \<Rightarrow> world \<Rightarrow> ((error + deck) \<times> world) option" where
  "topics_loop content [] prs w = Some (Inr prs, w)"
| "topics_loop content (topic # topics) prs w =
     (case topic_slides content topic prs w of
        None \<Rightarrow> None
      | Some (Inl e, w') \<Rightarrow> Some (Inl e, w')
      | Some (Inr prs', w') \<Rightarrow> topics_loop content topics prs' w')"

text \<open>
  \<open>create_presentation\<close> of App.py. The prompt holds \<open>{topics}\<close>, the \<open>repr\<close> of a list
  of strings, which is taken as the parameter \<open>repr_topics\<close>. The deck is saved under the
  title with its spaces replaced, and the file name is returned; when \<open>prs.save\<close> raises,
  the exception ends the run and the files are as they were.
\<close>

definition create_presentation_A ::
  "env \<Rightarrow> (string list \<Rightarrow> string) \<Rightarrow> string \<Rightarrow> string list \<Rightarrow> world
     \<Rightarrow> ((error + string) \<times> world) option" where
  "create_presentation_A e repr_topics title topics w =
     (let prs = add_slide [] 0 title ''Generated by AI'';
          (content, w) = generate_content_A e
             (''Generate ppt for the topic:'' @ repr_topics topics @ '' under title '' @ title) w
      in case topics_loop content topics prs w of
           None \<Rightarrow> None
         | Some (Inl err, w) \<Rightarrow> Some (Inl err, w)
         | Some (Inr prs, w) \<Rightarrow>
             (let file_name = replace '' '' ''_'' title @ ''.pptx''
              in case save_raises e file_name of
                   Some err \<Rightarrow> Some (Inl err, w)
                 | None \<Rightarrow> Some (Inr file_name, w\<lparr>files := (files w)(file_name \<mapsto> prs)\<rparr>)))"

text \<open>
  The submit handler of App.py. The result is the exception that ended the run, if any,
  and the world it left; \<open>None\<close> when the run does not return.
\<close>

definition submit_A ::
  "env \<Rightarrow> (string list \<Rightarrow> string) \<Rightarrow> string \<Rightarrow> string \<Rightarrow> world \<Rightarrow> (error option \<times> world) option" where
  "submit_A e repr_topics title topics_input w =
     (let topics = parse_topics topics_input
      in if topics = [] then Some (None, st (StError ''Please enter at least one topic.'') w)
         else
           (let w = st (StInfo ''Generating your presentation. Please wait...'') w
            in case create_presentation_A e repr_topics title topics w of
                 None \<Rightarrow> None
               | Some (Inl err, w) \<Rightarrow> Some (Some err, w)
               | Some (Inr file_name, w) \<Rightarrow>
                   (let w = st (StSuccess (''Presentation '' @ [CHR 0x27] @ file_name @ [CHR 0x27]
                                   @ '' created successfully!'')) w
                    in case files w file_name of
                         None \<Rightarrow> Some (Some FileNotFoundError, w)
                       | Some data \<Rightarrow>
                           Some (None, st (StDownloadButton ''Download Presentation'' data file_name) w))))"

section \<open>Variant B: the marker-based segmenter\<close>

definition generate_content_B :: "env \<Rightarrow> string \<Rightarrow> string list \<Rightarrow> world \<Rightarrow> string \<times> world" where
  "generate_content_B e title topics w =
     (if api_key e = None \<or> api_key e = Some []
      then (''Error: Missing API key.'',
            st (StError ''Gemini API key not found. Please set it in the .env file.'') w)
      else (let prompt = ''Generate ppt for the topic: '' @ join '', '' topics
                           @ '' under title '' @ title;
                w = w\<lparr>calls := calls w @ [prompt]\<rparr>
            in case gemini e prompt of
                 Inr text \<Rightarrow> (text, w)
               | Inl msg \<Rightarrow> (''Error generating content.'', st (StError (''Error: '' @ msg)) w)))"

text \<open>
  The pattern of \<open>split_into_slides\<close> is \<open>(Slide \d+:.*?)(?=Slide \d+:|$)\<close> with \<open>DOTALL\<close>.
  \<open>match_marker s\<close> is the length of the match of \<open>Slide \d+:\<close> at the start of \<open>s\<close>:
  the digits can only be taken to their end, since a colon must follow them.
\<close>

definition match_marker :: "string \<Rightarrow> nat option" where
  "match_marker s =
     (if prefix ''Slide '' s
      then (let digits = takeWhile isdigit (drop 6 s)
            in if digits \<noteq> [] \<and> prefix '':'' (drop (6 + length digits) s)
               then Some (6 + length digits + 1)
               else None)
      else None)"

text \<open>
  The lookahead \<open>(?=Slide \d+:|$)\<close>: a marker starts here, or this is the end of the
  text; without \<open>MULTILINE\<close>, \<open>$\<close> also matches just before a newline that ends the text.
\<close>

definition lookahead :: "string \<Rightarrow> bool" where
  "lookahead s \<longleftrightarrow> match_marker s \<noteq> None \<or> s = [] \<or> s = ''\<newline>''"

text \<open>
  The lazy \<open>.*?\<close> before the lookahead takes characters (any character, under \<open>DOTALL\<close>)
  up to the first place where the lookahead holds: what it takes, and the text left.
\<close>

fun lazy_any :: "string \<Rightarrow> string \<times> string" where
  "lazy_any [] = ([], [])"
| "lazy_any (c # cs) =
     (if lookahead (c # cs) then ([], c # cs)
      else (case lazy_any cs of (taken, left) \<Rightarrow> (c # taken, left)))"

text \<open>
  \<open>slide_pattern.findall(content)\<close>: the matches from left to right, without overlap;
  where the pattern does not match, the scan moves on by one character.
\<close>

function findall_slides :: "string \<Rightarrow> string list" where
  "findall_slides [] = []"
| "findall_slides (c # cs) =
     (case match_marker (c # cs) of
        None \<Rightarrow> findall_slides cs
      | Some n \<Rightarrow>
          (case lazy_any (drop n (c # cs)) of
             (taken, left) \<Rightarrow> (take n (c # cs) @ taken) # findall_slides left))"
  by pat_completeness auto
termination
proof (relation "measure length")
  show "wf (measure length)" by simp
next
  fix c :: char and cs :: string
  show "(cs, c # cs) \<in> measure length" by simp
next
  fix c :: char and cs :: string and n :: nat and taken left :: string
  assume m: "match_marker (c # cs) = Some n"
    and l: "(taken, left) = lazy_any (drop n (c # cs))"
  have le: "length (snd (lazy_any t)) \<le> length t" for t
    by (induction t) (auto split: prod.splits)
  from m have "0 < n" by (auto simp: match_marker_def Let_def split: if_splits)
  then have "length (drop n (c # cs)) < length (c # cs)" by simp
  with le[of "drop n (c # cs)"] l [symmetric]
  show "(left, c # cs) \<in> measure length" by simp
qed

text \<open>
  Each match loses its last two characters (\<open>match[:-2]\<close>) and gets the bold marker in
  front (\<open>f"**{match}"\<close>).
\<close>

definition bold_marker :: "string \<Rightarrow> string" where
  "bold_marker match = ''**'' @ match"

definition split_into_slides :: "string \<Rightarrow> string list" where
  "split_into_slides content = map (\<lambda>m. bold_marker (slice_to m (-2))) (findall_slides content)"

definition remove_double_asteris :: "string list \<Rightarrow> string list" where
  "remove_double_asteris input_list = map (replace ''**'' []) input_list"

text \<open>
  \<open>create_presentation\<close> of App1.py returns the error string, or the list of fragments.
\<close>

definition create_presentation_B ::
  "env \<Rightarrow> string \<Rightarrow> string list \<Rightarrow> world \<Rightarrow> (string + string list) \<times> world" where
  "create_presentation_B e title topics w =
     (let (content, w) = generate_content_B e title topics w
      in if startswith content ''Error'' then (Inl content, w)
         else (let slides = split_into_slides content;
                   filtered_slides = remove_double_asteris slides;
                   w = st (StTextArea ''raw content'' content) w
               in (Inr filtered_slides, w)))"

text \<open>
  \<open>re.match(r"Slide (\d+): (.+)", slide_header)\<close>: the two groups. The dot does not match
  a newline here, and \<open>.+\<close> is greedy.
\<close>

definition match_header :: "string \<Rightarrow> (string \<times> string) option" where
  "match_header slide_header =
     (if prefix ''Slide '' slide_header
      then (let digits = takeWhile isdigit (drop 6 slide_header);
                after = drop (6 + length digits) slide_header;
                heading = takeWhile (\<lambda>c. c \<noteq> CHR ''\<newline>'') (drop 2 after)
            in if digits \<noteq> [] \<and> prefix '': '' after \<and> heading \<noteq> []
               then Some (digits, heading)
               else None)
      else None)"

definition process_slide_title :: "string \<Rightarrow> (string \<times> string \<times> string) option" where
  "process_slide_title slide =
     (let parts = split_once (CHR ''\<newline>'') slide
      in if length parts = 2
         then (let slide_header = strip (parts ! 0)
               in case match_header slide_header of
                    Some (slide_number, heading) \<Rightarrow>
                      (let title = strip heading;
                           points = strip (parts ! 1);
                           points_list =
                             map (\<lambda>point. strip (strip_chars ''* '' point))
                               (filter (\<lambda>point. strip point \<noteq> []) (split (CHR ''\<newline>'') points));
                           points_string = join '', '' points_list
                       in Some (slide_number, title, points_string))
                  | None \<Rightarrow> None)
         else None)"

text \<open>
  The loop of \<open>generate_ppt\<close>. Unpacking \<open>None\<close> into three names raises \<open>TypeError\<close>,
  which nothing catches.
\<close>

fun ppt_loop :: "string list \<Rightarrow> deck \<Rightarrow> error + deck" where
  "ppt_loop [] prs = Inr prs"
| "ppt_loop (slide_content # slides) prs =
     (case process_slide_title slide_content of
        None \<Rightarrow> Inl TypeError
      | Some (no, title, content) \<Rightarrow>
          ppt_loop slides (add_slide prs 1 (no @ ''.'' @ title) content))"

definition generate_ppt :: "string list \<Rightarrow> error + deck" where
  "generate_ppt slides = ppt_loop slides []"

text \<open>
  The branch of the submit handler of App1.py that reports success, builds the deck,
  shows every fragment and offers the download.
\<close>

definition deliver :: "string \<Rightarrow> string list \<Rightarrow> world \<Rightarrow> error option \<times> world" where
  "deliver title slides w =
     (let w = st (StSuccess ''Presentation content generated successfully!'') w
      in case generate_ppt slides of
           Inl err \<Rightarrow> (Some err, w)
         | Inr ppt_stream \<Rightarrow>
             (let w = foldl (\<lambda>w (i, slide).
                               st (StTextArea (''Slide '' @ str_nat i @ '' Content'') slide)
                                 (st (StSubheader (''Slide '' @ str_nat i)) w))
                        w (zip [1..<Suc (length slides)] slides)
              in (None, st (StDownloadButton ''Download PowerPoint Presentation'' ppt_stream
                              (replace '' '' ''_'' title @ ''_presentation.pptx'')) w)))"

text \<open>
  The submit handler of App1.py. A string that does not start with \<open>Error\<close> would be
  iterated character by character.
\<close>

definition submit_B :: "env \<Rightarrow> string \<Rightarrow> string \<Rightarrow> world \<Rightarrow> error option \<times> world" where
  "submit_B e title topics_input w =
     (let topics = parse_topics topics_input
      in if topics = [] then (None, st (StError ''Please enter at least one topic.'') w)
         else
           (let w = st (StInfo ''Generating your presentation. Please wait...'') w;
                (slides, w) = create_presentation_B e title topics w
            in case slides of
                 Inl s \<Rightarrow>
                   if startswith s ''Error'' then (None, st (StError s) w)
                   else deliver title (map (\<lambda>c. [c]) s) w
               | Inr slides \<Rightarrow> deliver title slides w))"

section \<open>Notions used to state the properties\<close>

text \<open>
  What \<open>s.strip()\<close> removes from \<open>s\<close>: the whitespace at its start and the whitespace at
  its end.
\<close>

definition strip_removed :: "string \<Rightarrow> string \<times> string" where
  "strip_removed s =
     (takeWhile isspace s, rev (takeWhile isspace (rev (dropWhile isspace s))))"

text \<open>
  The whitespace trimmed at the first \<open>n\<close> cuts of \<open>split_content\<close>: at each cut, what
  \<open>strip\<close> removes from \<open>content[split_index:]\<close>.
\<close>

fun trimmed :: "string \<Rightarrow> int \<Rightarrow> nat \<Rightarrow> (string \<times> string) list" where
  "trimmed content max_length 0 = []"
| "trimmed content max_length (Suc n) =
     strip_removed (slice_from content (split_index content max_length))
       # trimmed (snd (split_step content max_length)) max_length n"

text \<open>
  The chunks of a text put back together with what was trimmed at the cuts: the cut
  after a chunk took the first part from the text right behind the chunk and the second
  part from the end of the text. Without a cut there is one chunk and nothing to restore.
\<close>

fun restore :: "string list \<Rightarrow> (string \<times> string) list \<Rightarrow> string" where
  "restore (c # cs) ((front, back) # ts) = c @ front @ restore cs ts @ back"
| "restore cs ts = concat cs"

text \<open>The two kinds of slide the scripts add.\<close>

definition title_slide :: "string \<Rightarrow> slide" where
  "title_slide title = \<lparr>layout = 0, title_text = title, body_text = ''Generated by AI''\<rparr>"

definition content_slide :: "string \<Rightarrow> string \<Rightarrow> slide" where
  "content_slide heading body = \<lparr>layout = 1, title_text = heading, body_text = body\<rparr>"

text \<open>The number of slides of a deck that were added with the title layout.\<close>

definition count_title_slides :: "deck \<Rightarrow> nat" where
  "count_title_slides prs = length (filter (\<lambda>s. layout s = 0) prs)"

text \<open>
  The places of a text where a marker \<open>Slide <n>:\<close> starts, and the spans that run from
  each of them up to the next one, the last span up to a given end.
\<close>

definition marker_positions :: "string \<Rightarrow> nat list" where
  "marker_positions s = filter (\<lambda>i. match_marker (drop i s) \<noteq> None) [0..<length s]"

definition spans_of :: "string \<Rightarrow> nat list \<Rightarrow> nat \<Rightarrow> string list" where
  "spans_of s ps e = map (\<lambda>(p, q). take (q - p) (drop p s)) (zip ps (tl ps @ [e]))"

text \<open>The end of the text as \<open>$\<close> sees it: before a newline that ends the text.\<close>

definition text_end :: "string \<Rightarrow> nat" where
  "text_end s = (if s \<noteq> [] \<and> last s = CHR ''\<newline>'' then length s - 1 else length s)"

text \<open>
  The examples run on a page on which nothing has been shown, with nothing saved and
  nothing sent; in a directory where a save raises for a file name with a slash (the
  directory is not there) and for no other; in an environment without the credential, or
  in one with a credential whose service answers every prompt with one text.
\<close>

definition fresh :: world where
  "fresh = \<lparr>ui = [], files = Map.empty, calls = []\<rparr>"

definition flat_directory :: "string \<Rightarrow> error option" where
  "flat_directory file_name =
     (if CHR ''/'' \<in> set file_name then Some FileNotFoundError else None)"

definition no_key :: "(string \<Rightarrow> string + string) \<Rightarrow> env" where
  "no_key service = \<lparr>api_key = None, gemini = service, save_raises = flat_directory\<rparr>"

definition fixed_reply :: "string \<Rightarrow> env" where
  "fixed_reply text =
     \<lparr>api_key = Some ''key'', gemini = (\<lambda>prompt. Inr text), save_raises = flat_directory\<rparr>"

section \<open>Facts about strings\<close>

lemma length_strip_le: "length (strip s) \<le> length s"
  unfolding strip_def
  by (metis length_dropWhile_le length_rev order_trans)

lemma length_strip_less:
  assumes "s \<noteq> []" and "isspace (hd s)"
  shows "length (strip s) < length s"
proof -
  obtain c cs where s: "s = c # cs" using assms(1) by (cases s) auto
  with assms(2) have "dropWhile isspace s = dropWhile isspace cs" by simp
  then have "length (dropWhile isspace s) \<le> length cs"
    by (simp add: length_dropWhile_le)
  moreover have "length (strip s) \<le> length (dropWhile isspace s)"
    unfolding strip_def by (metis length_dropWhile_le length_rev)
  ultimately show ?thesis using s by simp
qed

lemma rfind_cases:
  "rfind s c e = -1 \<or> (0 \<le> rfind s c e \<and> nat (rfind s c e) < slice_bound s e \<and> s ! nat (rfind s c e) = c)"
proof (cases "filter (\<lambda>i. s ! i = c) (rev [0..<slice_bound s e])")
  case Nil
  then show ?thesis by (simp add: rfind_def)
next
  case (Cons i rest)
  then have "i \<in> set (filter (\<lambda>i. s ! i = c) (rev [0..<slice_bound s e]))" by simp
  then have "i < slice_bound s e \<and> s ! i = c" by auto
  with Cons show ?thesis by (simp add: rfind_def)
qed

lemma strip_decomp:
  "s = takeWhile isspace s @ strip s @ rev (takeWhile isspace (rev (dropWhile isspace s)))"
proof -
  let ?d = "dropWhile isspace s"
  have "rev ?d = takeWhile isspace (rev ?d) @ dropWhile isspace (rev ?d)" by simp
  then have "?d = rev (dropWhile isspace (rev ?d)) @ rev (takeWhile isspace (rev ?d))"
    by (metis rev_append rev_rev_ident)
  then have "?d = strip s @ rev (takeWhile isspace (rev ?d))" by (simp add: strip_def)
  moreover have "s = takeWhile isspace s @ ?d" by simp
  ultimately show ?thesis by metis
qed

lemma split_index_range:
  assumes "1 \<le> m" "int (length c) > m"
  defines "k \<equiv> split_index c m"
  shows "0 \<le> k \<and> k \<le> m \<and> slice_bound c k = nat k \<and> (k = 0 \<longrightarrow> c ! 0 = CHR '' '')"
proof -
  have sb: "slice_bound c m = nat m" using assms(1,2) by (simp add: slice_bound_def)
  from rfind_cases[of c "CHR '' ''" m] show ?thesis
  proof
    assume "rfind c (CHR '' '') m = -1"
    then show ?thesis using assms(1,2) sb by (simp add: k_def split_index_def)
  next
    assume a: "0 \<le> rfind c (CHR '' '') m \<and> nat (rfind c (CHR '' '') m) < slice_bound c m \<and> c ! nat (rfind c (CHR '' '') m) = CHR '' ''"
    then have "k = rfind c (CHR '' '') m" by (auto simp: k_def split_index_def)
    with a sb assms(1,2) show ?thesis by (auto simp: slice_bound_def)
  qed
qed

lemma split_step_unfold:
  "split_step c m = (take (slice_bound c (split_index c m)) c,
                     strip (drop (slice_bound c (split_index c m)) c))"
  by (simp add: split_step_def Let_def slice_to_def slice_from_def)

lemma split_step_chunk_le:
  assumes "1 \<le> m" "int (length c) > m"
  shows "int (length (fst (split_step c m))) \<le> m"
  using split_index_range[OF assms] by (auto simp: split_step_unfold)

lemma split_step_shorter:
  assumes "1 \<le> m" "int (length c) > m"
  shows "length (snd (split_step c m)) < length c"
proof -
  define k where "k = split_index c m"
  have r: "0 \<le> k \<and> k \<le> m \<and> slice_bound c k = nat k \<and> (k = 0 \<longrightarrow> c ! 0 = CHR '' '')"
    using split_index_range[OF assms] by (simp add: k_def)
  have snd: "snd (split_step c m) = strip (drop (nat k) c)"
    using r by (simp add: split_step_unfold k_def)
  show ?thesis
  proof (cases "k = 0")
    case True
    with r have "c ! 0 = CHR '' ''" by simp
    moreover have "c \<noteq> []" using assms by auto
    ultimately have "isspace (hd c)" by (simp add: hd_conv_nth isspace_def)
    with \<open>c \<noteq> []\<close> have "length (strip c) < length c" by (rule length_strip_less)
    with True snd show ?thesis by simp
  next
    case False
    with r have "0 < nat k" by auto
    then have "length (drop (nat k) c) < length c" using assms by auto
    with length_strip_le[of "drop (nat k) c"] snd show ?thesis by simp
  qed
qed

lemma strip_removed_space:
  "list_all isspace (fst (strip_removed s)) \<and> list_all isspace (snd (strip_removed s))"
  unfolding strip_removed_def by (simp add: list_all_iff) (meson set_takeWhileD)

lemma strip_removed_decomp:
  "fst (strip_removed s) @ strip s @ snd (strip_removed s) = s"
  using strip_decomp[of s] by (simp add: strip_removed_def)

text \<open>A cut puts the content apart into the chunk, the remainder and what was trimmed.\<close>

lemma split_step_decomp:
  "fst (split_step c m) @ fst (strip_removed (slice_from c (split_index c m)))
     @ snd (split_step c m) @ snd (strip_removed (slice_from c (split_index c m))) = c"
proof -
  let ?r = "slice_from c (split_index c m)"
  have "fst (split_step c m) @ ?r = c"
    by (simp add: split_step_def Let_def slice_to_def slice_from_def)
  moreover have "snd (split_step c m) = strip ?r" by (simp add: split_step_def Let_def)
  ultimately show ?thesis using strip_removed_decomp[of ?r] by (metis append.assoc)
qed

text \<open>
  A string that does not end in whitespace; \<open>strip\<close> returns such strings, and a cut of
  one trims nothing from its end.
\<close>

lemma strip_no_trailing: "strip s = [] \<or> \<not> isspace (last (strip s))"
proof (cases "dropWhile isspace (rev (dropWhile isspace s))")
  case Nil
  then show ?thesis by (simp add: strip_def)
next
  case (Cons x xs)
  then have "\<not> isspace x" by (metis hd_dropWhile list.sel(1) list.distinct(1))
  moreover have "last (strip s) = x" using Cons by (simp add: strip_def)
  ultimately show ?thesis by simp
qed

lemma strip_removed_back_empty:
  assumes "s \<noteq> []" "\<not> isspace (last s)"
  shows "snd (strip_removed s) = []"
proof -
  have "\<exists>x\<in>set s. \<not> isspace x" using assms by (meson last_in_set)
  then have d: "dropWhile isspace s \<noteq> []" by (simp add: dropWhile_eq_Nil_conv)
  then have "last (dropWhile isspace s) = last s"
    by (metis last_appendR takeWhile_dropWhile_id)
  with assms(2) d have "\<not> isspace (hd (rev (dropWhile isspace s)))"
    by (simp add: hd_rev)
  with d have "takeWhile isspace (rev (dropWhile isspace s)) = []"
    by (cases "rev (dropWhile isspace s)") auto
  then show ?thesis by (simp add: strip_removed_def)
qed

lemma cut_back_empty:
  assumes "1 \<le> m" "int (length c) > m" "\<not> isspace (last c)"
  shows "snd (strip_removed (slice_from c (split_index c m))) = []"
proof -
  define k where "k = split_index c m"
  have r: "0 \<le> k \<and> k \<le> m \<and> slice_bound c k = nat k"
    using split_index_range[OF assms(1,2)] by (simp add: k_def)
  then have lt: "nat k < length c" using assms(2) by linarith
  then have "drop (nat k) c \<noteq> []" by simp
  moreover have "last (drop (nat k) c) = last c" using lt by simp
  ultimately show ?thesis
    using assms(3) r strip_removed_back_empty[of "drop (nat k) c"]
    by (simp add: slice_from_def k_def)
qed

section \<open>The fixed-length segmenter returns\<close>

lemma length_trimmed: "length (trimmed c m n) = n"
  by (induction n arbitrary: c) simp_all

lemma trimmed_space:
  "\<forall>t\<in>set (trimmed c m n). list_all isspace (fst t) \<and> list_all isspace (snd t)"
  by (induction n arbitrary: c) (simp_all add: strip_removed_space)

lemma split_loop_spec:
  assumes m: "1 \<le> m"
  shows "\<exists>r. split_loop acc c m = Some (acc @ r) \<and> r \<noteq> []
           \<and> (\<forall>x\<in>set r. int (length x) \<le> m)
           \<and> (\<not> int (length c) > m \<longrightarrow> r = [c])
           \<and> restore r (trimmed c m (length r - 1)) = c
           \<and> (c = [] \<or> \<not> isspace (last c) \<longrightarrow>
                 (\<forall>t\<in>set (trimmed c m (length r - 1)). snd t = []))
           \<and> (\<forall>t\<in>set (tl (trimmed c m (length r - 1))). snd t = [])"
proof (induction "length c" arbitrary: acc c rule: less_induct)
  case less
  show ?case
  proof (cases "int (length c) > m")
    case False
    then have "split_loop acc c m = Some (acc @ [c])"
      by (subst split_loop.simps) simp
    then show ?thesis using False
      by (intro exI[of _ "[c]"]) simp
  next
    case True
    define chunk where "chunk = fst (split_step c m)"
    define rest where "rest = snd (split_step c m)"
    define cut where "cut = strip_removed (slice_from c (split_index c m))"
    have "length rest < length c"
      unfolding rest_def using m True by (rule split_step_shorter)
    from less[OF this, of "acc @ [chunk]"]
    obtain r where r: "split_loop (acc @ [chunk]) rest m = Some ((acc @ [chunk]) @ r)"
      "r \<noteq> []" "\<forall>x\<in>set r. int (length x) \<le> m"
      "restore r (trimmed rest m (length r - 1)) = rest"
      "rest = [] \<or> \<not> isspace (last rest) \<longrightarrow>
         (\<forall>t\<in>set (trimmed rest m (length r - 1)). snd t = [])"
      by blast
    have loop: "split_loop acc c m = Some (acc @ (chunk # r))"
      using True r(1) by (subst split_loop.simps) (simp add: chunk_def rest_def)
    have chunk_le: "int (length chunk) \<le> m"
      unfolding chunk_def using m True by (rule split_step_chunk_le)
    have n: "length (chunk # r) - 1 = Suc (length r - 1)"
      using r(2) by (cases r) simp_all
    have tr: "trimmed c m (length (chunk # r) - 1) = cut # trimmed rest m (length r - 1)"
      unfolding n by (simp add: cut_def rest_def)
    have "chunk @ fst cut @ rest @ snd cut = c"
      unfolding chunk_def rest_def cut_def by (rule split_step_decomp)
    then have res: "restore (chunk # r) (trimmed c m (length (chunk # r) - 1)) = c"
      unfolding tr using r(4) by (cases cut) simp
    have "rest = [] \<or> \<not> isspace (last rest)"
      unfolding rest_def split_step_def Let_def by (simp add: strip_no_trailing)
    with r(5) have later: "\<forall>t\<in>set (trimmed rest m (length r - 1)). snd t = []" by blast
    have A: "c = [] \<or> \<not> isspace (last c) \<longrightarrow>
               (\<forall>t\<in>set (trimmed c m (length (chunk # r) - 1)). snd t = [])"
    proof
      assume "c = [] \<or> \<not> isspace (last c)"
      moreover have "c \<noteq> []" using m True by auto
      ultimately have "\<not> isspace (last c)" by simp
      with m True have "snd cut = []" unfolding cut_def by (rule cut_back_empty)
      with later show "\<forall>t\<in>set (trimmed c m (length (chunk # r) - 1)). snd t = []"
        unfolding tr by simp
    qed
    have B: "\<forall>t\<in>set (tl (trimmed c m (length (chunk # r) - 1))). snd t = []"
      unfolding tr using later by simp
    show ?thesis
      using loop chunk_le r(3) res A B True
      by (intro exI[of _ "chunk # r"]) simp
  qed
qed

text \<open>
  The bound on \<open>max_length\<close> is needed: with 0 the loop does not return on \<open>a\<close>, since
  every round cuts at 0 and \<open>strip\<close> changes nothing.
\<close>

lemma split_step_stuck: "split_step ''a'' 0 = ([], ''a'')"
  by (simp add: split_step_def split_index_def rfind_def slice_bound_def slice_to_def slice_from_def strip_def isspace_def)

lemma split_loop_stuck:
  assumes "split_loop chunks content max_length = Some y"
  shows "\<not> (content = ''a'' \<and> max_length = 0)"
proof (rule split_loop.raw_induct
    [where P = "\<lambda>chunks content max_length y. \<not> (content = ''a'' \<and> max_length = 0)", OF _ assms])
  fix f :: "string list \<Rightarrow> string \<Rightarrow> int \<Rightarrow> string list option"
    and chunks content max_length y
  assume IH: "\<And>chunks content max_length y.
      f chunks content max_length = Some y \<Longrightarrow> \<not> (content = ''a'' \<and> max_length = 0)"
    and eq: "(if max_length < int (length content)
      then f (chunks @ [fst (split_step content max_length)])
            (snd (split_step content max_length)) max_length
      else Some (chunks @ [content])) = Some y"
  show "\<not> (content = ''a'' \<and> max_length = 0)"
  proof
    assume a: "content = ''a'' \<and> max_length = 0"
    with eq have "f (chunks @ [[]]) ''a'' 0 = Some y" by (simp add: split_step_stuck)
    from IH[OF this] show False by simp
  qed
qed

lemma split_content_zero_diverges: "split_content ''a'' 0 = None"
proof (cases "split_content ''a'' 0")
  case None
  then show ?thesis .
next
  case (Some y)
  then show ?thesis using split_loop_stuck[of "[]" "''a''" 0 y] by (simp add: split_content_def)
qed

lemma topic_slides_first_chunk:
  assumes "split_content content 900 = Some chunks" "chunks \<noteq> []"
  shows "\<exists>prs' w'. topic_slides content topic prs w = Some (Inr prs', w')"
  using assms by (cases chunks) (simp_all add: topic_slides_def Let_def)

text \<open>
  C9: for every content and every maximum length of at least 1, \<open>split_content\<close>
  returns, and what it returns is not the empty list. Every round of its loop leaves a
  strictly shorter content: a cut at index 0 is a cut at a space, which \<open>strip\<close> then
  removes, and a cut without a space is a cut at \<open>max_length\<close>, which is at least 1.
  So \<open>content_chunks[0]\<close> in the round of \<open>create_presentation\<close> for a topic does not
  raise, whatever the content is.
\<close>

theorem split_content_terminates:
  assumes "1 \<le> max_length"
  shows "(\<exists>chunks. split_content content max_length = Some chunks \<and> chunks \<noteq> [])
       \<and> (int (length content) > max_length \<longrightarrow>
            length (snd (split_step content max_length)) < length content)
       \<and> (\<exists>prs' w'. topic_slides content topic prs w = Some (Inr prs', w'))"
proof -
  have ret: "\<exists>chunks. split_content content k = Some chunks \<and> chunks \<noteq> []" if "1 \<le> k" for k
    using split_loop_spec[OF that, of "[]" content] unfolding split_content_def by auto
  obtain chunks where "split_content content 900 = Some chunks" "chunks \<noteq> []"
    using ret[of 900] by auto
  then have "\<exists>prs' w'. topic_slides content topic prs w = Some (Inr prs', w')"
    by (rule topic_slides_first_chunk)
  moreover have "int (length content) > max_length \<longrightarrow>
      length (snd (split_step content max_length)) < length content"
    using assms by (simp add: split_step_shorter)
  ultimately show ?thesis using ret[OF assms] by blast
qed

text \<open>
  An instance: the only space of the first three characters is at index 0, and after it
  there is no space at all; and the empty content.
\<close>

theorem split_content_terminates_witness:
  "(1::int) \<le> 3
   \<and> split_content '' abcdef'' 3 = Some ['''', ''abc'', ''def'']
   \<and> split_content '''' 3 = Some ['''']
   \<and> length (snd (split_step '' abcdef'' 3)) < length '' abcdef''
   \<and> (\<exists>chunks. split_content '' abcdef'' 3 = Some chunks \<and> chunks \<noteq> [])"
proof -
  have a: "split_content '' abcdef'' 3 = Some ['''', ''abc'', ''def'']" by code_simp
  have b: "split_content '''' 3 = Some ['''']" by code_simp
  have c: "int (length '' abcdef'') > 3" by simp
  from split_content_terminates[of 3 "'' abcdef''"] c a b show ?thesis by simp
qed

text \<open>
  C4: for every content and every positive maximum length, no chunk that \<open>split_content\<close>
  returns is longer than the maximum length. The exception the claim allows for is
  never used: a word longer than the limit is cut at the limit.
\<close>

theorem split_content_chunk_bound:
  assumes "1 \<le> max_length"
  shows "\<exists>chunks. split_content content max_length = Some chunks
           \<and> (\<forall>chunk\<in>set chunks. int (length chunk) \<le> max_length)"
  using split_loop_spec[OF assms, of "[]" content] unfolding split_content_def by auto

text \<open>An instance with a word of sixteen letters and a limit of four.\<close>

theorem split_content_chunk_bound_witness:
  "(1::int) \<le> 4
   \<and> split_content ''incomprehensible to me'' 4 = Some [''inco'', ''mpre'', ''hens'', ''ible'', ''to'', ''me'']
   \<and> list_all (\<lambda>chunk. int (length chunk) \<le> 4) [''inco'', ''mpre'', ''hens'', ''ible'', ''to'', ''me'']"
proof -
  have a: "split_content ''incomprehensible to me'' 4 = Some [''inco'', ''mpre'', ''hens'', ''ible'', ''to'', ''me'']"
    by code_simp
  from split_content_chunk_bound[of 4 "''incomprehensible to me''"] a show ?thesis
    by (simp add: list_all_iff)
qed

text \<open>
  C5: for every content and every positive maximum length, the chunks of \<open>split_content\<close>,
  put together in order with the whitespace trimmed at each cut restored, are the content.
  There is one cut between two chunks. When the content is not longer than the maximum
  there is no cut, nothing is restored and the one chunk is the content. What \<open>strip\<close>
  trims at a cut is whitespace: a part right behind the chunk and a part at the end of
  the text, and only the first cut finds anything to trim at the end.
\<close>

theorem split_content_restore:
  assumes "1 \<le> max_length"
  shows "\<exists>chunks. split_content content max_length = Some chunks
           \<and> (\<not> int (length content) > max_length \<longrightarrow> chunks = [content])
           \<and> length (trimmed content max_length (length chunks - 1)) = length chunks - 1
           \<and> (\<forall>t\<in>set (trimmed content max_length (length chunks - 1)).
                 list_all isspace (fst t) \<and> list_all isspace (snd t))
           \<and> (\<forall>t\<in>set (tl (trimmed content max_length (length chunks - 1))). snd t = [])
           \<and> restore chunks (trimmed content max_length (length chunks - 1)) = content"
proof -
  from split_loop_spec[OF assms, of "[]" content]
  obtain r where r: "split_loop [] content max_length = Some r"
    "\<not> int (length content) > max_length \<longrightarrow> r = [content]"
    "restore r (trimmed content max_length (length r - 1)) = content"
    "\<forall>t\<in>set (tl (trimmed content max_length (length r - 1))). snd t = []"
    by auto
  then show ?thesis
    unfolding split_content_def
    using length_trimmed[of content max_length "length r - 1"]
      trimmed_space[of content max_length "length r - 1"]
    by (intro exI[of _ r]) simp
qed

text \<open>
  Two instances: a text with two cuts, where the first cut trims one space behind the
  chunk and three at the end of the text, and a text without a cut that ends in
  whitespace.
\<close>

theorem split_content_restore_witness:
  "(1::int) \<le> 5
   \<and> split_content ''aaa  bbb ccc   '' 5 = Some [''aaa '', ''bbb'', ''ccc'']
   \<and> trimmed ''aaa  bbb ccc   '' 5 2 = [('' '', ''   ''), ('' '', '''')]
   \<and> restore [''aaa '', ''bbb'', ''ccc''] [('' '', ''   ''), ('' '', '''')] = ''aaa  bbb ccc   ''
   \<and> split_content ''abc  '' 10 = Some [''abc  '']
   \<and> trimmed ''abc  '' 10 0 = []
   \<and> restore [''abc  ''] [] = ''abc  ''"
proof -
  have a: "split_content ''aaa  bbb ccc   '' 5 = Some [''aaa '', ''bbb'', ''ccc'']" by code_simp
  have b: "trimmed ''aaa  bbb ccc   '' 5 2 = [('' '', ''   ''), ('' '', '''')]" by code_simp
  have c: "split_content ''abc  '' 10 = Some [''abc  '']" by code_simp
  from split_content_restore[of 5 "''aaa  bbb ccc   ''"] a b
  have "restore [''aaa '', ''bbb'', ''ccc''] [('' '', ''   ''), ('' '', '''')] = ''aaa  bbb ccc   ''"
    by (simp add: numeral_2_eq_2)
  moreover from split_content_restore[of 10 "''abc  ''"] c
  have "restore [''abc  ''] [] = ''abc  ''" by simp
  ultimately show ?thesis using a b c by simp
qed

section \<open>Variant A: the deck that is saved\<close>

lemma split_content_900:
  "\<exists>chunks. split_content content 900 = Some chunks \<and> chunks \<noteq> []"
  using split_loop_spec[of 900 "[]" content] unfolding split_content_def by auto

lemma foldl_add_slide:
  "foldl (\<lambda>prs chunk. add_slide prs 1 topic chunk) prs chunks = prs @ map (content_slide topic) chunks"
  by (induction chunks arbitrary: prs) (simp_all add: add_slide_def content_slide_def)

lemma topic_slides_deck:
  assumes "split_content content 900 = Some chunks" "chunks \<noteq> []"
  shows "topic_slides content topic prs w =
           Some (Inr (prs @ map (content_slide topic) chunks),
                 st (StWrite content) (st (StWrite (''### '' @ topic)) w))"
proof -
  obtain c cs where c: "chunks = c # cs" using assms(2) by (cases chunks) auto
  have "foldl (\<lambda>prs chunk. add_slide prs 1 topic chunk) (add_slide prs 1 topic c) cs
          = prs @ map (content_slide topic) (c # cs)"
    unfolding foldl_add_slide by (simp add: add_slide_def content_slide_def)
  then show ?thesis using assms(1) c
    unfolding topic_slides_def Let_def by simp
qed

text \<open>The loop over the topics sends nothing to the service and saves nothing.\<close>

lemma topics_loop_deck:
  assumes "split_content content 900 = Some chunks" "chunks \<noteq> []"
  shows "\<exists>w'. topics_loop content topics prs w =
           Some (Inr (prs @ concat (map (\<lambda>topic. map (content_slide topic) chunks) topics)), w')
           \<and> files w' = files w \<and> calls w' = calls w"
proof (induction topics arbitrary: prs w)
  case Nil
  then show ?case by simp
next
  case (Cons topic topics)
  let ?w = "st (StWrite content) (st (StWrite (''### '' @ topic)) w)"
  from Cons[of "prs @ map (content_slide topic) chunks" ?w]
  obtain w' where "topics_loop content topics (prs @ map (content_slide topic) chunks) ?w =
      Some (Inr ((prs @ map (content_slide topic) chunks)
                   @ concat (map (\<lambda>topic. map (content_slide topic) chunks) topics)), w')"
    "files w' = files ?w" "calls w' = calls ?w" by blast
  then show ?case
    by (simp add: topic_slides_deck[OF assms] st_def)
qed

text \<open>\<open>generate_content\<close> sends the prompt once when there is a credential, and saves nothing.\<close>

lemma generate_content_A_calls:
  assumes "generate_content_A e prompt w = (content, w1)"
  shows "calls w1 = calls w @ (if api_key e = None \<or> api_key e = Some [] then [] else [prompt])
       \<and> files w1 = files w"
  using assms
  by (auto simp: generate_content_A_def Let_def st_def split: if_splits sum.splits)

lemma create_presentation_A_run:
  "\<exists>content w1 chunks w2.
      generate_content_A e
        (''Generate ppt for the topic:'' @ repr_topics topics @ '' under title '' @ title) w
        = (content, w1)
    \<and> calls w1 = calls w @
        (if api_key e = None \<or> api_key e = Some [] then []
         else [''Generate ppt for the topic:'' @ repr_topics topics @ '' under title '' @ title])
    \<and> split_content content 900 = Some chunks \<and> chunks \<noteq> []
    \<and> topics_loop content topics [title_slide title] w1 =
        Some (Inr (title_slide title
                     # concat (map (\<lambda>topic. map (content_slide topic) chunks) topics)), w2)
    \<and> calls w2 = calls w1 \<and> files w2 = files w
    \<and> create_presentation_A e repr_topics title topics w =
        (case save_raises e (replace '' '' ''_'' title @ ''.pptx'') of
           Some err \<Rightarrow> Some (Inl err, w2)
         | None \<Rightarrow>
             Some (Inr (replace '' '' ''_'' title @ ''.pptx''),
                   w2\<lparr>files := (files w2)(replace '' '' ''_'' title @ ''.pptx'' \<mapsto>
                      title_slide title
                        # concat (map (\<lambda>topic. map (content_slide topic) chunks) topics))\<rparr>))"
proof -
  let ?p = "''Generate ppt for the topic:'' @ repr_topics topics @ '' under title '' @ title"
  let ?deck = "title_slide title # concat (map (\<lambda>topic. map (content_slide topic) chunks) topics)"
  obtain content w1 where g: "generate_content_A e ?p w = (content, w1)"
    by (cases "generate_content_A e ?p w")
  obtain chunks where sc: "split_content content 900 = Some chunks" and ne: "chunks \<noteq> []"
    using split_content_900[of content] by blast
  obtain w2 where l: "topics_loop content topics [title_slide title] w1 =
      Some (Inr ([title_slide title] @ concat (map (\<lambda>topic. map (content_slide topic) chunks) topics)), w2)"
    "files w2 = files w1" "calls w2 = calls w1"
    using topics_loop_deck[OF sc ne, of topics "[title_slide title]" w1] by blast
  have c: "create_presentation_A e repr_topics title topics w =
        (case save_raises e (replace '' '' ''_'' title @ ''.pptx'') of
           Some err \<Rightarrow> Some (Inl err, w2)
         | None \<Rightarrow>
             Some (Inr (replace '' '' ''_'' title @ ''.pptx''),
                   w2\<lparr>files := (files w2)(replace '' '' ''_'' title @ ''.pptx'' \<mapsto>
                      title_slide title
                        # concat (map (\<lambda>topic. map (content_slide topic) chunks) topics))\<rparr>))"
    using g l(1)
    by (simp add: create_presentation_A_def Let_def add_slide_def title_slide_def split: option.splits)
  from generate_content_A_calls[OF g] g sc ne l c show ?thesis
    by (intro exI[of _ content] exI[of _ w1] exI[of _ chunks] exI[of _ w2]) simp
qed

text \<open>
  C8: in variant A \<open>create_presentation\<close> calls \<open>generate_content\<close> once, before its loop:
  with a credential the prompt is sent to the service once, and the loop over the topics,
  which starts in the world that call left, sends nothing. The deck the loop hands to
  \<open>prs.save\<close> is the title slide and then, for each topic in order, one content slide per
  chunk of that one blob; the chunks are the same list for every topic, so the body texts
  of the slides of any two topics are the same sequence. The deck is in the file when
  the save does not raise.
\<close>

theorem same_blob_for_every_topic:
  "\<exists>content w1 chunks w2.
      generate_content_A e
        (''Generate ppt for the topic:'' @ repr_topics topics @ '' under title '' @ title) w
        = (content, w1)
    \<and> calls w1 = calls w @
        (if api_key e = None \<or> api_key e = Some [] then []
         else [''Generate ppt for the topic:'' @ repr_topics topics @ '' under title '' @ title])
    \<and> split_content content 900 = Some chunks
    \<and> topics_loop content topics [title_slide title] w1 =
        Some (Inr (title_slide title
                     # concat (map (\<lambda>topic. map (content_slide topic) chunks) topics)), w2)
    \<and> calls w2 = calls w1
    \<and> (\<forall>topic. map body_text (map (content_slide topic) chunks) = chunks)
    \<and> create_presentation_A e repr_topics title topics w =
        (case save_raises e (replace '' '' ''_'' title @ ''.pptx'') of
           Some err \<Rightarrow> Some (Inl err, w2)
         | None \<Rightarrow>
             Some (Inr (replace '' '' ''_'' title @ ''.pptx''),
                   w2\<lparr>files := (files w2)(replace '' '' ''_'' title @ ''.pptx'' \<mapsto>
                      title_slide title
                        # concat (map (\<lambda>topic. map (content_slide topic) chunks) topics))\<rparr>))"
proof -
  have "map body_text (map (content_slide topic) chunks) = chunks" for topic and chunks :: "string list"
    by (induction chunks) (simp_all add: content_slide_def)
  with create_presentation_A_run[of e repr_topics topics title w] show ?thesis by blast
qed

text \<open>
  C1: without the credential, variant A does not stop. \<open>generate_content\<close> returns the
  error string, \<open>create_presentation\<close> does not look at it and puts it on a content slide
  for every topic, saves the deck and returns the file name, and the handler reports
  success and offers the file. Here the run for the title \<open>Gen AI\<close> and the one topic
  \<open>A\<close>, on a fresh page, whatever the service and the rendering of the topics are;
  nothing is sent to the service.
\<close>

theorem missing_key_variant_A_writes_deck:
  "submit_A (no_key service) repr_topics ''Gen AI'' ''A'' fresh =
     Some (None,
       \<lparr>ui = [StInfo ''Generating your presentation. Please wait...'',
               StError ''Gemini API key not found. Please set it in the .env file.'',
               StWrite ''### A'',
               StWrite ''Error: Missing API key.'',
               StSuccess (''Presentation '' @ [CHR 0x27] @ ''Gen_AI.pptx'' @ [CHR 0x27]
                            @ '' created successfully!''),
               StDownloadButton ''Download Presentation''
                 [title_slide ''Gen AI'', content_slide ''A'' ''Error: Missing API key.'']
                 ''Gen_AI.pptx''],
        files = [''Gen_AI.pptx'' \<mapsto>
                 [title_slide ''Gen AI'', content_slide ''A'' ''Error: Missing API key.'']],
        calls = []\<rparr>)"
proof -
  have t: "parse_topics ''A'' = [''A'']"
    by (simp add: parse_topics_def strip_def isspace_def)
  have s: "split_content ''Error: Missing API key.'' 900 = Some [''Error: Missing API key.'']"
    unfolding split_content_def by (subst split_loop.simps) simp
  have r: "replace '' '' ''_'' ''Gen AI'' = ''Gen_AI''"
    by (simp add: replace_def)
  have f: "flat_directory ''Gen_AI.pptx'' = None" by (simp add: flat_directory_def)
  show ?thesis
    unfolding submit_A_def Let_def t
    by (simp add: create_presentation_A_def generate_content_A_def no_key_def fresh_def
          topic_slides_def s r f st_def add_slide_def title_slide_def content_slide_def Let_def)
qed

text \<open>
  Variant B does stop: \<open>create_presentation\<close> of App1.py returns the error string, and the
  handler shows it and builds no deck.
\<close>

lemma missing_key_variant_B_stops:
  assumes "api_key e = None \<or> api_key e = Some []" "parse_topics topics_input \<noteq> []"
  shows "submit_B e title topics_input w =
     (None, w\<lparr>ui := ui w @ [StInfo ''Generating your presentation. Please wait...'',
                            StError ''Gemini API key not found. Please set it in the .env file.'',
                            StError ''Error: Missing API key.'']\<rparr>)"
  using assms
  by (simp add: submit_B_def Let_def create_presentation_B_def generate_content_B_def
        startswith_def st_def)

text \<open>
  Two instances with the topics \<open>A\<close> and \<open>B\<close> and a service that answers \<open>hello world\<close>:
  under the title \<open>T\<close> the deck is saved, and under the title \<open>a/b\<close> the save raises and
  no file is written. In both the prompt is sent once.
\<close>

theorem same_blob_for_every_topic_witness:
  "create_presentation_A (fixed_reply ''hello world'') concat ''T'' [''A'', ''B''] fresh =
     Some (Inr ''T.pptx'',
       \<lparr>ui = [StWrite ''### A'', StWrite ''hello world'', StWrite ''### B'', StWrite ''hello world''],
        files = [''T.pptx'' \<mapsto>
                 [title_slide ''T'', content_slide ''A'' ''hello world'',
                  content_slide ''B'' ''hello world'']],
        calls = [''Generate ppt for the topic:AB under title T'']\<rparr>)
   \<and> create_presentation_A (fixed_reply ''hello world'') concat ''a/b'' [''A'', ''B''] fresh =
     Some (Inl FileNotFoundError,
       \<lparr>ui = [StWrite ''### A'', StWrite ''hello world'', StWrite ''### B'', StWrite ''hello world''],
        files = Map.empty,
        calls = [''Generate ppt for the topic:AB under title a/b'']\<rparr>)"
proof -
  let ?e = "fixed_reply ''hello world''"
  have s: "split_content ''hello world'' 900 = Some [''hello world'']"
    unfolding split_content_def by (subst split_loop.simps) simp
  have run: "create_presentation_A ?e concat title [''A'', ''B''] fresh =
      (case flat_directory (replace '' '' ''_'' title @ ''.pptx'') of
         Some err \<Rightarrow>
           Some (Inl err,
             \<lparr>ui = [StWrite ''### A'', StWrite ''hello world'', StWrite ''### B'', StWrite ''hello world''],
              files = Map.empty,
              calls = [''Generate ppt for the topic:AB under title '' @ title]\<rparr>)
       | None \<Rightarrow>
           Some (Inr (replace '' '' ''_'' title @ ''.pptx''),
             \<lparr>ui = [StWrite ''### A'', StWrite ''hello world'', StWrite ''### B'', StWrite ''hello world''],
              files = [replace '' '' ''_'' title @ ''.pptx'' \<mapsto>
                 [title_slide title, content_slide ''A'' ''hello world'',
                  content_slide ''B'' ''hello world'']],
              calls = [''Generate ppt for the topic:AB under title '' @ title]\<rparr>))" for title
  proof -
    from same_blob_for_every_topic[of ?e concat "[''A'', ''B'']" title fresh]
    obtain content w1 chunks w2 where h:
      "generate_content_A ?e
         (''Generate ppt for the topic:'' @ concat [''A'', ''B''] @ '' under title '' @ title) fresh
         = (content, w1)"
      "split_content content 900 = Some chunks"
      "topics_loop content [''A'', ''B''] [title_slide title] w1 =
         Some (Inr (title_slide title
                     # concat (map (\<lambda>topic. map (content_slide topic) chunks) [''A'', ''B''])), w2)"
      "create_presentation_A ?e concat title [''A'', ''B''] fresh =
        (case save_raises ?e (replace '' '' ''_'' title @ ''.pptx'') of
           Some err \<Rightarrow> Some (Inl err, w2)
         | None \<Rightarrow>
             Some (Inr (replace '' '' ''_'' title @ ''.pptx''),
                   w2\<lparr>files := (files w2)(replace '' '' ''_'' title @ ''.pptx'' \<mapsto>
                      title_slide title
                        # concat (map (\<lambda>topic. map (content_slide topic) chunks) [''A'', ''B'']))\<rparr>))"
      by blast
    from h(1) have c: "content = ''hello world''"
      and w1: "w1 = \<lparr>ui = [], files = Map.empty,
                      calls = [''Generate ppt for the topic:AB under title '' @ title]\<rparr>"
      by (simp_all add: generate_content_A_def fixed_reply_def fresh_def Let_def)
    from h(2) c s have ch: "chunks = [''hello world'']" by simp
    have "topics_loop ''hello world'' [''A'', ''B''] [title_slide title] w1 =
        Some (Inr [title_slide title, content_slide ''A'' ''hello world'',
                   content_slide ''B'' ''hello world''],
          \<lparr>ui = [StWrite ''### A'', StWrite ''hello world'', StWrite ''### B'', StWrite ''hello world''],
           files = Map.empty,
           calls = [''Generate ppt for the topic:AB under title '' @ title]\<rparr>)"
      by (simp add: w1 topic_slides_def s st_def add_slide_def content_slide_def Let_def)
    with h(3) c have w2: "w2 =
          \<lparr>ui = [StWrite ''### A'', StWrite ''hello world'', StWrite ''### B'', StWrite ''hello world''],
           files = Map.empty,
           calls = [''Generate ppt for the topic:AB under title '' @ title]\<rparr>"
      by simp
    show ?thesis
      unfolding h(4) ch w2 by (simp add: fixed_reply_def split: option.splits)
  qed
  have r1: "replace '' '' ''_'' ''T'' = ''T''" by (simp add: replace_def)
  have r2: "replace '' '' ''_'' ''a/b'' = ''a/b''" by (simp add: replace_def)
  have f1: "flat_directory ''T.pptx'' = None" by (simp add: flat_directory_def)
  have f2: "flat_directory ''a/b.pptx'' = Some FileNotFoundError" by (simp add: flat_directory_def)
  from run[of "''T''"] run[of "''a/b''"] show ?thesis
    by (simp add: r1 r2 f1 f2)
qed

section \<open>Variant B: markers and fragments\<close>

lemma replace_from_absent:
  "\<not> sublist old s \<Longrightarrow> replace_from old new s = s"
proof (induction s)
  case Nil
  then show ?case by simp
next
  case (Cons c cs)
  have "\<not> prefix old (c # cs)" using Cons.prems by (meson prefix_imp_sublist)
  moreover have "\<not> sublist old cs" using Cons.prems by (meson sublist_Cons_right)
  ultimately show ?case using Cons.IH by simp
qed

lemma remove_bold_marker:
  assumes "\<not> sublist ''**'' x"
  shows "replace ''**'' [] (bold_marker x) = x"
proof -
  have "replace_from ''**'' [] (''**'' @ x) = replace_from ''**'' [] x" by simp
  with replace_from_absent[OF assms] show ?thesis
    by (simp add: replace_def bold_marker_def)
qed

text \<open>
  C7: for strings that do not contain \<open>**\<close>, removing the markers after putting the bold
  marker in front gives the strings back.
\<close>

theorem remove_after_wrap:
  assumes "\<forall>x\<in>set xs. \<not> sublist ''**'' x"
  shows "remove_double_asteris (map bold_marker xs) = xs"
  using assms by (induction xs) (simp_all add: remove_double_asteris_def remove_bold_marker)

text \<open>
  An instance: a string that starts and ends with one asterisk, and the empty string.
\<close>

theorem remove_after_wrap_witness:
  "\<not> sublist ''**'' ''*Slide 1: A*'' \<and> \<not> sublist ''**'' ''''
   \<and> map bold_marker [''*Slide 1: A*'', ''''] = [''***Slide 1: A*'', ''**'']
   \<and> remove_double_asteris [''***Slide 1: A*'', ''**''] = [''*Slide 1: A*'', '''']"
proof -
  have h: "\<forall>x\<in>set [''*Slide 1: A*'', ''''] . \<not> sublist ''**'' x" by code_simp
  have m: "map bold_marker [''*Slide 1: A*'', ''''] = [''***Slide 1: A*'', ''**'']"
    by (simp add: bold_marker_def)
  from remove_after_wrap[OF h] h m show ?thesis by simp
qed

lemma marker_positions_Cons:
  "marker_positions (c # cs) =
     (if match_marker (c # cs) \<noteq> None then [0] else []) @ map Suc (marker_positions cs)"
proof -
  have "[0..<length (c # cs)] = 0 # map Suc [0..<length cs]"
    by (simp add: upt_conv_Cons map_Suc_upt del: upt_Suc)
  then show ?thesis
    by (simp add: marker_positions_def filter_map o_def del: upt_Suc)
qed

lemma marker_positions_Nil: "marker_positions [] = []"
  by (simp add: marker_positions_def)

lemma findall_no_marker:
  "marker_positions s = [] \<Longrightarrow> findall_slides s = []"
proof (induction s)
  case Nil
  then show ?case by simp
next
  case (Cons c cs)
  from Cons.prems have "match_marker (c # cs) = None" "marker_positions cs = []"
    by (auto simp: marker_positions_Cons split: if_splits)
  with Cons.IH show ?case by simp
qed

text \<open>
  C10: in variant B, when the credential is there, the service answers with a text that
  does not start with \<open>Error\<close> and in which no marker starts, and the form holds a topic,
  \<open>split_into_slides\<close> returns no fragment, \<open>generate_ppt\<close> builds a deck without slides,
  and the handler shows the raw content, reports success and offers that empty deck for
  download; it shows no error. The prompt has been sent once.
\<close>

theorem no_marker_empty_deck:
  assumes "api_key e = Some k" and "k \<noteq> []"
    and "gemini e (''Generate ppt for the topic: '' @ join '', '' (parse_topics topics_input)
                     @ '' under title '' @ title) = Inr content"
    and "\<not> startswith content ''Error''"
    and "marker_positions content = []"
    and "parse_topics topics_input \<noteq> []"
  shows "split_into_slides content = []
       \<and> generate_ppt (remove_double_asteris (split_into_slides content)) = Inr []
       \<and> submit_B e title topics_input w =
           (None, w\<lparr>ui := ui w @
              [StInfo ''Generating your presentation. Please wait...'',
               StTextArea ''raw content'' content,
               StSuccess ''Presentation content generated successfully!'',
               StDownloadButton ''Download PowerPoint Presentation'' []
                 (replace '' '' ''_'' title @ ''_presentation.pptx'')],
            calls := calls w @
              [''Generate ppt for the topic: '' @ join '', '' (parse_topics topics_input)
                 @ '' under title '' @ title]\<rparr>)"
proof -
  have s: "split_into_slides content = []"
    using findall_no_marker[OF assms(5)] by (simp add: split_into_slides_def)
  have g: "generate_ppt (remove_double_asteris (split_into_slides content)) = Inr []"
    by (simp add: s remove_double_asteris_def generate_ppt_def)
  have c: "create_presentation_B e title (parse_topics topics_input) w0
           = (Inr [], st (StTextArea ''raw content'' content)
                        (w0\<lparr>calls := calls w0 @
                           [''Generate ppt for the topic: '' @ join '', '' (parse_topics topics_input)
                              @ '' under title '' @ title]\<rparr>))" for w0
    using assms(1-4)
    by (simp add: create_presentation_B_def generate_content_B_def Let_def s remove_double_asteris_def)
  have d: "deliver title [] w' =
      (None, st (StDownloadButton ''Download PowerPoint Presentation'' []
                  (replace '' '' ''_'' title @ ''_presentation.pptx''))
               (st (StSuccess ''Presentation content generated successfully!'') w'))" for w'
    by (simp add: deliver_def generate_ppt_def Let_def)
  have "submit_B e title topics_input w =
           (None, w\<lparr>ui := ui w @
              [StInfo ''Generating your presentation. Please wait...'',
               StTextArea ''raw content'' content,
               StSuccess ''Presentation content generated successfully!'',
               StDownloadButton ''Download PowerPoint Presentation'' []
                 (replace '' '' ''_'' title @ ''_presentation.pptx'')],
            calls := calls w @
              [''Generate ppt for the topic: '' @ join '', '' (parse_topics topics_input)
                 @ '' under title '' @ title]\<rparr>)"
    using assms(6) unfolding submit_B_def Let_def c
    by (simp add: d st_def)
  with s g show ?thesis by simp
qed

text \<open>
  An instance: the service answers \<open>Here are some thoughts.\<close>
\<close>

theorem no_marker_empty_deck_witness:
  "api_key (fixed_reply ''Here are some thoughts.'') = Some ''key'' \<and> ''key'' \<noteq> []
   \<and> \<not> startswith ''Here are some thoughts.'' ''Error''
   \<and> marker_positions ''Here are some thoughts.'' = []
   \<and> parse_topics ''A'' \<noteq> []
   \<and> submit_B (fixed_reply ''Here are some thoughts.'') ''Gen AI'' ''A'' fresh =
        (None, fresh\<lparr>ui := ui fresh @
              [StInfo ''Generating your presentation. Please wait...'',
               StTextArea ''raw content'' ''Here are some thoughts.'',
               StSuccess ''Presentation content generated successfully!'',
               StDownloadButton ''Download PowerPoint Presentation'' []
                 (replace '' '' ''_'' ''Gen AI'' @ ''_presentation.pptx'')],
            calls := calls fresh @ [''Generate ppt for the topic: A under title Gen AI'']\<rparr>)"
proof -
  have a: "api_key (fixed_reply ''Here are some thoughts.'') = Some ''key''"
    by (simp add: fixed_reply_def)
  have b: "''key'' \<noteq> []" by simp
  have c: "gemini (fixed_reply ''Here are some thoughts.'')
             (''Generate ppt for the topic: '' @ join '', '' (parse_topics ''A'')
                @ '' under title '' @ ''Gen AI'') = Inr ''Here are some thoughts.''"
    by (simp add: fixed_reply_def)
  have d: "\<not> startswith ''Here are some thoughts.'' ''Error''" by code_simp
  have e: "marker_positions ''Here are some thoughts.'' = []" by code_simp
  have f: "parse_topics ''A'' \<noteq> []" by code_simp
  have t: "parse_topics ''A'' = [''A'']" by code_simp
  from no_marker_empty_deck[OF a b c d e f, of fresh] a b d e f show ?thesis by (simp add: t)
qed

text \<open>
  C3: a fragment that does not parse is not skipped. The service answers with two
  fragments; the header of the first has no space after its colon, so
  \<open>process_slide_title\<close> returns \<open>None\<close> for it, and the second one parses. \<open>generate_ppt\<close>
  raises \<open>TypeError\<close> at the first, and the handler ends with that exception after it has
  reported success: no deck, no download, and the second fragment is not assembled.
\<close>

theorem unparsed_fragment_raises:
  "fst (create_presentation_B
          (fixed_reply ''Slide 1:Intro\<newline>* a\<newline>\<newline>Slide 2: B\<newline>* b\<newline>\<newline>\<newline>'')
          ''T'' [''A''] fresh)
     = Inr [''Slide 1:Intro\<newline>* a'', ''Slide 2: B\<newline>* b'']
   \<and> process_slide_title ''Slide 1:Intro\<newline>* a'' = None
   \<and> process_slide_title ''Slide 2: B\<newline>* b'' = Some (''2'', ''B'', ''b'')
   \<and> generate_ppt [''Slide 1:Intro\<newline>* a'', ''Slide 2: B\<newline>* b''] = Inl TypeError
   \<and> submit_B
        (fixed_reply ''Slide 1:Intro\<newline>* a\<newline>\<newline>Slide 2: B\<newline>* b\<newline>\<newline>\<newline>'')
        ''T'' ''A'' fresh
     = (Some TypeError,
        \<lparr>ui = [StInfo ''Generating your presentation. Please wait...'',
                StTextArea ''raw content''
                  ''Slide 1:Intro\<newline>* a\<newline>\<newline>Slide 2: B\<newline>* b\<newline>\<newline>\<newline>'',
                StSuccess ''Presentation content generated successfully!''],
         files = Map.empty,
         calls = [''Generate ppt for the topic: A under title T'']\<rparr>)"
proof -
  let ?blob = "''Slide 1:Intro\<newline>* a\<newline>\<newline>Slide 2: B\<newline>* b\<newline>\<newline>\<newline>''"
  have sw: "\<not> startswith ?blob ''Error''" by code_simp
  have fr: "remove_double_asteris (split_into_slides ?blob)
              = [''Slide 1:Intro\<newline>* a'', ''Slide 2: B\<newline>* b'']"
    by code_simp
  have p1: "process_slide_title ''Slide 1:Intro\<newline>* a'' = None" by code_simp
  have p2: "process_slide_title ''Slide 2: B\<newline>* b'' = Some (''2'', ''B'', ''b'')" by code_simp
  have g: "generate_ppt [''Slide 1:Intro\<newline>* a'', ''Slide 2: B\<newline>* b''] = Inl TypeError"
    by (simp add: generate_ppt_def p1)
  have t: "parse_topics ''A'' = [''A'']" by code_simp
  have c: "create_presentation_B (fixed_reply ?blob) ''T'' [''A''] w =
             (Inr [''Slide 1:Intro\<newline>* a'', ''Slide 2: B\<newline>* b''],
              st (StTextArea ''raw content'' ?blob)
                (w\<lparr>calls := calls w @ [''Generate ppt for the topic: A under title T'']\<rparr>))" for w
    using sw fr by (simp add: create_presentation_B_def generate_content_B_def fixed_reply_def Let_def)
  have "submit_B (fixed_reply ?blob) ''T'' ''A'' fresh
     = (Some TypeError,
        \<lparr>ui = [StInfo ''Generating your presentation. Please wait...'',
                StTextArea ''raw content'' ?blob,
                StSuccess ''Presentation content generated successfully!''],
         files = Map.empty,
         calls = [''Generate ppt for the topic: A under title T'']\<rparr>)"
    unfolding submit_B_def Let_def t c
    by (simp add: deliver_def g st_def fresh_def Let_def)
  with c p1 p2 g show ?thesis by simp
qed

lemma lazy_any_append: "fst (lazy_any u) @ snd (lazy_any u) = u"
  by (induction u) (auto split: prod.splits)

lemma lazy_any_left: "lookahead (snd (lazy_any u))"
  by (induction u) (auto simp: lookahead_def split: prod.splits)

lemma lazy_any_taken: "i < length (fst (lazy_any u)) \<Longrightarrow> \<not> lookahead (drop i u)"
proof (induction u arbitrary: i)
  case Nil
  then show ?case by simp
next
  case (Cons c cs)
  show ?case
  proof (cases "lookahead (c # cs)")
    case True
    with Cons.prems show ?thesis by simp
  next
    case False
    show ?thesis
    proof (cases i)
      case 0
      with False show ?thesis by simp
    next
      case (Suc j)
      with Cons.prems False have "j < length (fst (lazy_any cs))"
        by (auto split: prod.splits)
      from Cons.IH[OF this] Suc show ?thesis by simp
    qed
  qed
qed

lemma match_marker_S: "match_marker t \<noteq> None \<Longrightarrow> t \<noteq> [] \<and> hd t = CHR ''S''"
  by (cases t) (auto simp: match_marker_def split: if_splits)

lemma drop_prefix_add: "length p = a \<Longrightarrow> drop (a + k) (p @ r) = drop k r"
  by simp

lemma take_prefix_add: "length p = a \<Longrightarrow> take (a + k) (p @ r) = p @ take k r"
  by simp

lemma nth_prefix_add: "length p = a \<Longrightarrow> a \<le> i \<Longrightarrow> (p @ r) ! i = r ! (i - a)"
  by (simp add: nth_append)

lemma match_marker_shape:
  assumes "match_marker t = Some n"
  shows "\<exists>ds rest. t = ''Slide '' @ ds @ '':'' @ rest \<and> (\<forall>d\<in>set ds. isdigit d) \<and> n = 7 + length ds"
proof -
  from assms have p: "prefix ''Slide '' t" by (auto simp: match_marker_def split: if_splits)
  then obtain r where t: "t = ''Slide '' @ r" by (auto simp: prefix_def)
  define ds where "ds = takeWhile isdigit r"
  have six: "length ''Slide '' = 6" by simp
  have dr: "drop (6 + k) t = drop k r" for k
    unfolding t using six by (rule drop_prefix_add)
  from dr[of 0] have dr0: "drop 6 t = r" by simp
  from assms p have c: "prefix '':'' (drop (length ds) r)" and n: "n = 7 + length ds"
    unfolding match_marker_def Let_def dr dr0 ds_def by (simp_all split: if_splits)
  have "drop (length ds) r = dropWhile isdigit r"
    unfolding ds_def by (metis append_eq_conv_conj takeWhile_dropWhile_id)
  with c obtain rest where "dropWhile isdigit r = '':'' @ rest" by (auto simp: prefix_def)
  then have "r = ds @ '':'' @ rest"
    unfolding ds_def by (metis takeWhile_dropWhile_id)
  moreover have "\<forall>d\<in>set ds. isdigit d" unfolding ds_def by (auto dest: set_takeWhileD)
  ultimately show ?thesis using t n by blast
qed

lemma match_marker_inner:
  assumes "match_marker t = Some n" "0 < i" "i < n"
  shows "match_marker (drop i t) = None"
proof (rule ccontr)
  assume "match_marker (drop i t) \<noteq> None"
  then have h: "drop i t \<noteq> [] \<and> hd (drop i t) = CHR ''S''" by (rule match_marker_S)
  then have "i < length t" by simp
  with h have S: "t ! i = CHR ''S''" by (simp add: hd_drop_conv_nth)
  obtain ds rest where t: "t = ''Slide '' @ ds @ '':'' @ rest" and d: "\<forall>d\<in>set ds. isdigit d"
    and n: "n = 7 + length ds"
    using match_marker_shape[OF assms(1)] by blast
  have "\<not> isdigit (CHR ''S'')" by (simp add: isdigit_def)
  consider "i < 6" | "6 \<le> i \<and> i < 6 + length ds" | "i = 6 + length ds"
    using assms(3) n by linarith
  then show False
  proof cases
    case 1
    then have "i \<in> {1, 2, 3, 4, 5}" using assms(2) by auto
    then have "t ! i \<noteq> CHR ''S''" using t by auto
    with S show False by simp
  next
    case 2
    then have k: "i - 6 < length ds" by linarith
    have "t ! i = (ds @ '':'' @ rest) ! (i - 6)"
      unfolding t by (rule nth_prefix_add) (use 2 in simp_all)
    with k have "t ! i = ds ! (i - 6)" by (simp add: nth_append)
    moreover have "ds ! (i - 6) \<in> set ds" using k by simp
    ultimately show False using d S \<open>\<not> isdigit (CHR ''S'')\<close> by metis
  next
    case 3
    then have k: "i - 6 = length ds" by linarith
    have "t ! i = (ds @ '':'' @ rest) ! (i - 6)"
      unfolding t by (rule nth_prefix_add) (use 3 in simp_all)
    with k have "t ! i = CHR '':''" by (simp add: nth_append)
    with S show False by simp
  qed
qed

lemma match_marker_length: "match_marker t = Some n \<Longrightarrow> 0 < n \<and> n \<le> length t \<and> last (take n t) = CHR '':''"
proof -
  assume "match_marker t = Some n"
  from match_marker_shape[OF this] obtain ds rest where
    t: "t = ''Slide '' @ ds @ '':'' @ rest" and n: "n = 7 + length ds" by blast
  have "take (6 + (length ds + 1)) t = ''Slide '' @ take (length ds + 1) (ds @ '':'' @ rest)"
    unfolding t by (rule take_prefix_add) simp
  then have "take n t = ''Slide '' @ ds @ '':''" using n by simp
  then show ?thesis using t n by simp
qed

lemma marker_positions_skip:
  "(\<forall>i<length m. match_marker (drop i (m @ rest)) = None) \<Longrightarrow>
     marker_positions (m @ rest) = map (\<lambda>p. p + length m) (marker_positions rest)"
proof (induction m)
  case Nil
  then show ?case by simp
next
  case (Cons c m)
  from Cons.prems have 0: "match_marker (c # m @ rest) = None" by fastforce
  have "\<forall>i<length m. match_marker (drop i (m @ rest)) = None"
  proof (intro allI impI)
    fix i assume "i < length m"
    then have "Suc i < length (c # m)" by simp
    with Cons.prems have "match_marker (drop (Suc i) ((c # m) @ rest)) = None" by blast
    then show "match_marker (drop i (m @ rest)) = None" by simp
  qed
  from Cons.IH[OF this] 0 show ?case
    by (simp add: marker_positions_Cons)
qed

lemma marker_positions_first:
  assumes "m \<noteq> []" "match_marker (m @ rest) \<noteq> None"
    and "\<forall>i. 0 < i \<and> i < length m \<longrightarrow> match_marker (drop i (m @ rest)) = None"
  shows "marker_positions (m @ rest) = 0 # map (\<lambda>p. p + length m) (marker_positions rest)"
proof -
  obtain c m' where m: "m = c # m'" using assms(1) by (cases m) auto
  have "\<forall>i<length m'. match_marker (drop i (m' @ rest)) = None"
  proof (intro allI impI)
    fix i assume "i < length m'"
    then have "0 < Suc i \<and> Suc i < length m" using m by simp
    with assms(3) have "match_marker (drop (Suc i) (m @ rest)) = None" by blast
    then show "match_marker (drop i (m' @ rest)) = None" using m by simp
  qed
  from marker_positions_skip[OF this] assms(2) m show ?thesis
    by (simp add: marker_positions_Cons)
qed

lemma spans_of_shift:
  "spans_of (m @ rest) (map (\<lambda>p. p + length m) ps) (e + length m) = spans_of rest ps e"
proof -
  have "tl (map (\<lambda>p. p + length m) ps) @ [e + length m] = map (\<lambda>p. p + length m) (tl ps @ [e])"
    by (simp add: map_tl)
  moreover have "drop (p + length m) (m @ rest) = drop p rest" for p
    by simp
  ultimately show ?thesis
    unfolding spans_of_def by (simp add: zip_map_map case_prod_beta del: map_append drop_append)
qed

lemma spans_of_Cons2:
  "spans_of s (p # q # qs) e = take (q - p) (drop p s) # spans_of s (q # qs) e"
  by (simp add: spans_of_def)

lemma spans_of_single: "spans_of s [p] e = [take (e - p) (drop p s)]"
  by (simp add: spans_of_def)

lemma spans_of_Nil: "spans_of s [] e = []"
  by (simp add: spans_of_def)

lemma text_end_append: "rest \<noteq> [] \<Longrightarrow> text_end (m @ rest) = text_end rest + length m"
  by (cases rest) (auto simp: text_end_def)

lemma lookahead_newline: "lookahead ''\<newline>''"
  by (simp add: lookahead_def)

lemma findall_slides_spans:
  "findall_slides s = spans_of s (marker_positions s) (text_end s)"
proof (induction s rule: findall_slides.induct)
  case 1
  show ?case by (simp add: marker_positions_Nil spans_of_Nil)
next
  case (2 c cs)
  show ?case
  proof (cases "match_marker (c # cs)")
    case None
    have mp: "marker_positions (c # cs) = map (\<lambda>p. p + length [c]) (marker_positions cs)"
      using None by (simp add: marker_positions_Cons)
    show ?thesis
    proof (cases "cs = []")
      case True
      with None show ?thesis by (simp add: marker_positions_Cons marker_positions_Nil spans_of_Nil)
    next
      case False
      then have "text_end ([c] @ cs) = text_end cs + length [c]" by (rule text_end_append)
      then have "spans_of (c # cs) (marker_positions (c # cs)) (text_end (c # cs))
                   = spans_of cs (marker_positions cs) (text_end cs)"
        using spans_of_shift[of "[c]" cs "marker_positions cs" "text_end cs"] mp by simp
      with 2(1)[OF None] None show ?thesis by simp
    qed
  next
    case (Some n)
    define t where "t = c # cs"
    define u where "u = drop n t"
    define taken where "taken = fst (lazy_any u)"
    define left where "left = snd (lazy_any u)"
    define m where "m = take n t @ taken"
    have mm: "match_marker t = Some n" using Some by (simp add: t_def)
    have n: "0 < n" "n \<le> length t" "last (take n t) = CHR '':''"
      using match_marker_length[OF mm] by auto
    have la: "lazy_any (drop n (c # cs)) = (taken, left)"
      by (simp add: taken_def left_def u_def t_def)
    have u: "u = taken @ left" unfolding taken_def left_def by (simp add: lazy_any_append)
    have t: "t = m @ left" unfolding m_def using u u_def by (metis append.assoc append_take_drop_id)
    have m_ne: "m \<noteq> []" using n by (auto simp: m_def)
    have len_m: "length m = n + length taken" using n by (simp add: m_def)
    have IH: "findall_slides left = spans_of left (marker_positions left) (text_end left)"
      using 2(2)[OF Some la[symmetric]] .
    have fa: "findall_slides t = m # findall_slides left"
      using Some la by (simp add: t_def m_def)
    have "\<forall>i. 0 < i \<and> i < length m \<longrightarrow> match_marker (drop i t) = None"
    proof (intro allI impI)
      fix i assume i: "0 < i \<and> i < length m"
      show "match_marker (drop i t) = None"
      proof (cases "i < n")
        case True
        with match_marker_inner[OF mm] i show ?thesis by blast
      next
        case False
        then have "i - n < length taken" using i len_m by linarith
        then have "\<not> lookahead (drop (i - n) u)" unfolding taken_def by (rule lazy_any_taken)
        moreover have "drop (i - n) u = drop i t" using False by (simp add: u_def)
        ultimately show ?thesis by (simp add: lookahead_def)
      qed
    qed
    then have inner: "\<forall>i. 0 < i \<and> i < length m \<longrightarrow> match_marker (drop i (m @ left)) = None"
      unfolding t .
    have mp: "marker_positions t = 0 # map (\<lambda>p. p + length m) (marker_positions left)"
      using marker_positions_first[OF m_ne _ inner] mm t by simp
    have look: "lookahead left" unfolding left_def by (rule lazy_any_left)
    have "spans_of t (marker_positions t) (text_end t) = m # spans_of left (marker_positions left) (text_end left)"
    proof (cases "marker_positions left")
      case Nil
      have "match_marker left = None"
      proof (cases left)
        case Nil
        then show ?thesis by (simp add: match_marker_def)
      next
        case (Cons a as)
        with \<open>marker_positions left = []\<close> show ?thesis
          by (auto simp: marker_positions_Cons split: if_splits)
      qed
      with look have "left = [] \<or> left = ''\<newline>''" by (simp add: lookahead_def)
      then have "text_end t = length m"
      proof
        assume l: "left = []"
        have "last m \<noteq> CHR ''\<newline>''"
        proof (cases "taken = []")
          case True
          with n(3) show ?thesis by (simp add: m_def)
        next
          case False
          then have "length taken - 1 < length taken" by simp
          then have "\<not> lookahead (drop (length taken - 1) u)"
            unfolding taken_def by (rule lazy_any_taken)
          moreover have "drop (length taken - 1) u = [last taken]"
            using u l False by (metis append_Nil2 append_butlast_last_id append_eq_conv_conj length_butlast)
          ultimately have "last taken \<noteq> CHR ''\<newline>''" using lookahead_newline by auto
          with False show ?thesis by (simp add: m_def)
        qed
        with l t m_ne show ?thesis by (simp add: text_end_def)
      next
        assume "left = ''\<newline>''"
        with t show ?thesis by (simp add: text_end_def)
      qed
      with Nil mp t show ?thesis by (simp add: spans_of_single spans_of_Nil)
    next
      case (Cons p ps)
      have "left \<noteq> []" using Cons by (auto simp: marker_positions_Nil)
      moreover have "left \<noteq> ''\<newline>''"
        using Cons by (auto simp: marker_positions_Cons marker_positions_Nil match_marker_def)
      ultimately have "match_marker left \<noteq> None" using look by (simp add: lookahead_def)
      with Cons \<open>left \<noteq> []\<close> have p: "p = 0"
        by (cases left) (auto simp: marker_positions_Cons)
      have e1: "take (length m) t = m" using t by simp
      have e2: "text_end t = text_end left + length m"
        unfolding t using \<open>left \<noteq> []\<close> by (rule text_end_append)
      have e3: "spans_of t (map (\<lambda>p. p + length m) (marker_positions left)) (text_end left + length m)
                   = spans_of left (marker_positions left) (text_end left)"
        unfolding t by (rule spans_of_shift)
      have "spans_of t (0 # map (\<lambda>p. p + length m) (0 # ps)) (text_end t)
              = take (length m) t # spans_of t (map (\<lambda>p. p + length m) (0 # ps)) (text_end t)"
        by (simp add: spans_of_Cons2)
      then have "spans_of t (marker_positions t) (text_end t)
              = take (length m) t # spans_of t (map (\<lambda>p. p + length m) (marker_positions left)) (text_end t)"
        unfolding mp Cons p .
      then show ?thesis by (simp only: e1 e2 e3)
    qed
    with IH fa show ?thesis by (simp add: t_def)
  qed
qed

lemma length_spans_of: "length (spans_of s ps e) = length ps"
  by (cases ps) (simp_all add: spans_of_def)

text \<open>
  C6, as amended: \<open>split_into_slides\<close> returns as many fragments as there are places
  where a marker starts. The fragment of a marker is \<open>**\<close> followed by the span from that
  marker up to the next marker, or for the last marker up to the end of the text (a
  newline that ends the text left out), without the last two characters of the span.
\<close>

theorem split_into_slides_fragments:
  "length (split_into_slides content) = length (marker_positions content)
   \<and> split_into_slides content =
       map (\<lambda>span. bold_marker (slice_to span (-2)))
         (spans_of content (marker_positions content) (text_end content))"
  by (simp add: split_into_slides_def findall_slides_spans length_spans_of)

text \<open>
  C6 fails as stated: the text \<open>Slide 1: A\<close> has one marker, at 0, and the span from it to
  the end of the text is the whole text, but the one fragment returned is \<open>**Slide 1:\<close>.
\<close>

theorem split_into_slides_not_spans:
  "marker_positions ''Slide 1: A'' = [0]
   \<and> spans_of ''Slide 1: A'' [0] (length ''Slide 1: A'') = [''Slide 1: A'']
   \<and> split_into_slides ''Slide 1: A'' = [''**Slide 1:'']"
  by code_simp

lemma ppt_loop_all_parse:
  "\<forall>f\<in>set slides. process_slide_title f \<noteq> None \<Longrightarrow>
     \<exists>deck. ppt_loop slides prs = Inr (prs @ deck)
       \<and> list_all2 (\<lambda>f s. \<exists>no title content.
             process_slide_title f = Some (no, title, content)
           \<and> s = content_slide (no @ ''.'' @ title) content) slides deck"
proof (induction slides arbitrary: prs)
  case Nil
  then show ?case by simp
next
  case (Cons f slides)
  then obtain no title content where p: "process_slide_title f = Some (no, title, content)"
    by (cases "process_slide_title f") auto
  from Cons.prems have "\<forall>f\<in>set slides. process_slide_title f \<noteq> None" by simp
  from Cons.IH[OF this, of "add_slide prs 1 (no @ ''.'' @ title) content"]
  obtain deck where d: "ppt_loop slides (add_slide prs 1 (no @ ''.'' @ title) content)
        = Inr (add_slide prs 1 (no @ ''.'' @ title) content @ deck)"
     "list_all2 (\<lambda>f s. \<exists>no title content.
             process_slide_title f = Some (no, title, content)
           \<and> s = content_slide (no @ ''.'' @ title) content) slides deck" by blast
  let ?s = "content_slide (no @ ''.'' @ title) content"
  have "ppt_loop (f # slides) prs = Inr (prs @ (?s # deck))"
    using p d(1) by (simp add: add_slide_def content_slide_def)
  with p d(2) show ?case by (intro exI[of _ "?s # deck"]) simp
qed

lemma content_slides_only:
  assumes "list_all2 (\<lambda>f s. \<exists>no title content.
             process_slide_title f = Some (no, title, content)
           \<and> s = content_slide (no @ ''.'' @ title) content) slides deck"
  shows "length deck = length slides \<and> (\<forall>s\<in>set deck. layout s = 1) \<and> count_title_slides deck = 0"
proof -
  have l: "length deck = length slides" using assms by (simp add: list_all2_lengthD)
  have a: "\<forall>s\<in>set deck. layout s = 1"
  proof
    fix s assume "s \<in> set deck"
    then obtain i where "i < length deck" "deck ! i = s" by (auto simp: in_set_conv_nth)
    with assms l show "layout s = 1"
      by (auto simp: list_all2_conv_all_nth content_slide_def)
  qed
  then have "filter (\<lambda>s. layout s = 0) deck = []" by (simp add: filter_empty_conv)
  with l a show ?thesis by (simp add: count_title_slides_def)
qed

lemma count_title_slides_A:
  "count_title_slides (title_slide title # concat (map (\<lambda>topic. map (content_slide topic) chunks) topics)) = 1"
proof -
  have "filter (\<lambda>s. layout s = 0) (concat (map (\<lambda>topic. map (content_slide topic) chunks) topics)) = []"
    by (induction topics) (simp_all add: content_slide_def filter_empty_conv)
  then show ?thesis by (simp add: count_title_slides_def title_slide_def)
qed

text \<open>
  C2, as amended. In variant A, for every list of topics and every blob, the deck that
  \<open>create_presentation\<close> hands to \<open>prs.save\<close> is one title slide followed by, for each
  topic in order, one content slide per chunk of the blob, and there is at least one
  chunk; the title slide is the only slide with the title layout; that deck is in the
  file when the save does not raise. In variant B the deck has no title slide: when every
  fragment parses, \<open>generate_ppt\<close> returns one content slide per fragment, in order,
  and nothing else.
\<close>

theorem deck_shape:
  "(\<exists>content w1 chunks w2.
      generate_content_A e
        (''Generate ppt for the topic:'' @ repr_topics topics @ '' under title '' @ title) w
        = (content, w1)
      \<and> split_content content 900 = Some chunks \<and> chunks \<noteq> []
      \<and> topics_loop content topics [title_slide title] w1 =
          Some (Inr (title_slide title
                       # concat (map (\<lambda>topic. map (content_slide topic) chunks) topics)), w2)
      \<and> count_title_slides
            (title_slide title # concat (map (\<lambda>topic. map (content_slide topic) chunks) topics)) = 1
      \<and> create_presentation_A e repr_topics title topics w =
          (case save_raises e (replace '' '' ''_'' title @ ''.pptx'') of
             Some err \<Rightarrow> Some (Inl err, w2)
           | None \<Rightarrow>
               Some (Inr (replace '' '' ''_'' title @ ''.pptx''),
                     w2\<lparr>files := (files w2)(replace '' '' ''_'' title @ ''.pptx'' \<mapsto>
                        title_slide title
                          # concat (map (\<lambda>topic. map (content_slide topic) chunks) topics))\<rparr>)))
   \<and> ((\<forall>f\<in>set slides. process_slide_title f \<noteq> None) \<longrightarrow>
        (\<exists>deck. generate_ppt slides = Inr deck
           \<and> list_all2 (\<lambda>f s. \<exists>no title content.
                 process_slide_title f = Some (no, title, content)
               \<and> s = content_slide (no @ ''.'' @ title) content) slides deck
           \<and> length deck = length slides \<and> (\<forall>s\<in>set deck. layout s = 1)
           \<and> count_title_slides deck = 0))"
proof (rule conjI)
  from create_presentation_A_run[of e repr_topics topics title w]
    count_title_slides_A[of title _ topics]
  show "\<exists>content w1 chunks w2.
      generate_content_A e
        (''Generate ppt for the topic:'' @ repr_topics topics @ '' under title '' @ title) w
        = (content, w1)
      \<and> split_content content 900 = Some chunks \<and> chunks \<noteq> []
      \<and> topics_loop content topics [title_slide title] w1 =
          Some (Inr (title_slide title
                       # concat (map (\<lambda>topic. map (content_slide topic) chunks) topics)), w2)
      \<and> count_title_slides
            (title_slide title # concat (map (\<lambda>topic. map (content_slide topic) chunks) topics)) = 1
      \<and> create_presentation_A e repr_topics title topics w =
          (case save_raises e (replace '' '' ''_'' title @ ''.pptx'') of
             Some err \<Rightarrow> Some (Inl err, w2)
           | None \<Rightarrow>
               Some (Inr (replace '' '' ''_'' title @ ''.pptx''),
                     w2\<lparr>files := (files w2)(replace '' '' ''_'' title @ ''.pptx'' \<mapsto>
                        title_slide title
                          # concat (map (\<lambda>topic. map (content_slide topic) chunks) topics))\<rparr>))"
    by blast
next
  show "(\<forall>f\<in>set slides. process_slide_title f \<noteq> None) \<longrightarrow>
        (\<exists>deck. generate_ppt slides = Inr deck
           \<and> list_all2 (\<lambda>f s. \<exists>no title content.
                 process_slide_title f = Some (no, title, content)
               \<and> s = content_slide (no @ ''.'' @ title) content) slides deck
           \<and> length deck = length slides \<and> (\<forall>s\<in>set deck. layout s = 1)
           \<and> count_title_slides deck = 0)"
  proof
    assume "\<forall>f\<in>set slides. process_slide_title f \<noteq> None"
    from ppt_loop_all_parse[OF this, of "[]"]
    obtain deck where d: "generate_ppt slides = Inr deck"
      "list_all2 (\<lambda>f s. \<exists>no title content.
             process_slide_title f = Some (no, title, content)
           \<and> s = content_slide (no @ ''.'' @ title) content) slides deck"
      by (auto simp: generate_ppt_def)
    with content_slides_only[OF d(2)] show "\<exists>deck. generate_ppt slides = Inr deck
           \<and> list_all2 (\<lambda>f s. \<exists>no title content.
                 process_slide_title f = Some (no, title, content)
               \<and> s = content_slide (no @ ''.'' @ title) content) slides deck
           \<and> length deck = length slides \<and> (\<forall>s\<in>set deck. layout s = 1)
           \<and> count_title_slides deck = 0" by blast
  qed
qed

text \<open>
  An instance for variant B with one fragment that parses.
\<close>

theorem deck_shape_witness:
  "process_slide_title ''Slide 1: Intro\<newline>* a'' = Some (''1'', ''Intro'', ''a'')
   \<and> generate_ppt [''Slide 1: Intro\<newline>* a''] = Inr [content_slide ''1.Intro'' ''a'']
   \<and> (\<exists>deck. generate_ppt [''Slide 1: Intro\<newline>* a''] = Inr deck
          \<and> length deck = length [''Slide 1: Intro\<newline>* a''] \<and> list_all (\<lambda>s. layout s = 1) deck
          \<and> count_title_slides deck = 0)"
proof -
  have h: "\<forall>f\<in>set [''Slide 1: Intro\<newline>* a'']. process_slide_title f \<noteq> None" by code_simp
  have g: "generate_ppt [''Slide 1: Intro\<newline>* a''] = Inr [content_slide ''1.Intro'' ''a'']" by code_simp
  have p: "process_slide_title ''Slide 1: Intro\<newline>* a'' = Some (''1'', ''Intro'', ''a'')"
    by code_simp
  from deck_shape[of "no_key Inl" concat "[]" "''T''" fresh "[''Slide 1: Intro\<newline>* a'']"] h
  have "\<exists>deck. generate_ppt [''Slide 1: Intro\<newline>* a''] = Inr deck
          \<and> length deck = length [''Slide 1: Intro\<newline>* a''] \<and> (\<forall>s\<in>set deck. layout s = 1)
          \<and> count_title_slides deck = 0"
    by blast
  with g p show ?thesis by (simp add: list_all_iff)
qed

text \<open>
  C2 fails as stated in variant B: for a blob with two markers the deck is two content
  slides, and no title slide comes before them.
\<close>

theorem variant_B_no_title_slide:
  "generate_ppt (remove_double_asteris (split_into_slides
       ''Slide 1: Intro\<newline>* a\<newline>\<newline>Slide 2: B\<newline>* b\<newline>\<newline>\<newline>''))
     = Inr [content_slide ''1.Intro'' ''a'', content_slide ''2.B'' ''b'']
   \<and> count_title_slides [content_slide ''1.Intro'' ''a'', content_slide ''2.B'' ''b''] = 0"
  by code_simp

end
